theory Spec2Isabelle
  imports
    Main
    "HOL-Library.Word"
    "HOL-Library.Char_ord"
    "HOL-Library.List_Lexorder"
    "HOL-Library.Product_Lexorder"
begin

section \<open>Errors\<close>

text \<open>
  Every \<open>throw new Error(...)\<close> of the modelled functions is one constructor; a function
  that can throw returns \<open>error + 'a\<close> with \<open>Inl\<close> for the exception.
\<close>

datatype error =
    InvalidNotifyChildAttach
  | ChildAttachAfterAnalysis
  | ReferenceAfterAnalysis
  | UnexpectedAstCase
  | UnsupportedVariableDeclaration
  | UniqueNameUndefined
  | DuplicateCanonicalReference
  | AlreadyInContainer nat

section \<open>AstDeclaration (analyzer/AstDeclaration.ts)\<close>

text \<open>
  The readonly fields of an \<open>AstDeclaration\<close> object (\<open>declaration\<close> as \<open>declarationNode\<close>, \<open>astSymbol\<close>,
  \<open>parent\<close>) never change after the constructor, so an object is the finite value below;
  \<open>oid\<close> stands for the object's identity, compiler nodes and \<open>AstSymbol\<close> objects are
  named by numbers. The two private collections are mutable and live in the heap, as does
  the flag \<open>AstSymbol.analyzed\<close>. A \<open>Set\<close> iterates in insertion order, so it is a list
  that \<open>Set_add\<close> keeps free of duplicates.
\<close>

datatype AstDeclaration =
  AstDeclaration (oid: nat) (declarationNode: nat) (astSymbol: nat) (parent: "AstDeclaration option")

record ast_heap =
  analyzed :: "nat \<Rightarrow> bool"
  analyzedChildren :: "AstDeclaration \<Rightarrow> AstDeclaration list"
  analyzedReferencedAstSymbolsSet :: "AstDeclaration \<Rightarrow> nat list"

definition Set_add :: "'a \<Rightarrow> 'a list \<Rightarrow> 'a list" where
  "Set_add x xs = (if x \<in> set xs then xs else xs @ [x])"



definition notifyChildAttach :: "ast_heap \<Rightarrow> AstDeclaration \<Rightarrow> AstDeclaration \<Rightarrow> error + ast_heap" where
  "notifyChildAttach h this child =
     (if parent child \<noteq> Some this then Inl InvalidNotifyChildAttach
      else if analyzed h (astSymbol this) then Inl ChildAttachAfterAnalysis
      else Inr (h\<lparr>analyzedChildren := (analyzedChildren h)(this := analyzedChildren h this @ [child])\<rparr>))"

text \<open>
  The loop \<open>for (current = this; current; current = current.parent)\<close> of
  \<open>_notifyReferencedAstSymbol\<close>: \<open>True\<close> when one of its two \<open>return\<close>s is taken.
\<close>

fun referencedByAncestry :: "ast_heap \<Rightarrow> nat \<Rightarrow> AstDeclaration option \<Rightarrow> bool" where
  "referencedByAncestry h referencedAstSymbol None = False"
| "referencedByAncestry h referencedAstSymbol (Some (AstDeclaration i d s p)) =
     (if referencedAstSymbol \<in> set (analyzedReferencedAstSymbolsSet h (AstDeclaration i d s p)) then True
      else if referencedAstSymbol = s then True
      else referencedByAncestry h referencedAstSymbol p)"

definition notifyReferencedAstSymbol :: "ast_heap \<Rightarrow> AstDeclaration \<Rightarrow> nat \<Rightarrow> error + ast_heap" where
  "notifyReferencedAstSymbol h this referencedAstSymbol =
     (if analyzed h (astSymbol this) then Inl ReferenceAfterAnalysis
      else if referencedByAncestry h referencedAstSymbol (Some this) then Inr h
      else Inr (h\<lparr>analyzedReferencedAstSymbolsSet :=
                  (analyzedReferencedAstSymbolsSet h)
                    (this := Set_add referencedAstSymbol (analyzedReferencedAstSymbolsSet h this))\<rparr>))"


fun recordReferences :: "ast_heap \<Rightarrow> (AstDeclaration \<times> nat) list \<Rightarrow> error + ast_heap" where
  "recordReferences h [] = Inr h"
| "recordReferences h ((d, s) # calls) =
     (case notifyReferencedAstSymbol h d s of Inl e \<Rightarrow> Inl e | Inr h' \<Rightarrow> recordReferences h' calls)"

text \<open>The heap right after the constructors ran: nothing analyzed, nothing attached.\<close>

definition fresh_heap :: ast_heap where
  "fresh_heap = \<lparr>analyzed = (\<lambda>_. False), analyzedChildren = (\<lambda>_. []),
                 analyzedReferencedAstSymbolsSet = (\<lambda>_. [])\<rparr>"

text \<open>The declaration itself followed by its ancestors, innermost first.\<close>

fun ancestry :: "AstDeclaration option \<Rightarrow> AstDeclaration list" where
  "ancestry None = []"
| "ancestry (Some (AstDeclaration i d s p)) = AstDeclaration i d s p # ancestry p"

section \<open>ApiItemContainerMixin (api/mixins/ApiItemContainerMixin.ts)\<close>

text \<open>
  An \<open>ApiItem\<close> is known by its identity \<open>item_id\<close>, its \<open>name\<close> and its
  \<open>canonicalReference\<close>. The mutable field \<open>ApiItem_parent\<close> of every item and the
  four private fields of every container are the heap. \<open>addMember\<close> returns the
  exception, if any, together with the heap it leaves behind, so that what a failed call
  changed is a statement about the model and not an artefact of it.
\<close>

record ApiItem =
  item_id :: nat
  name :: string
  canonicalReference :: string

record container_fields =
  members :: "ApiItem list"
  membersSorted :: bool
  membersByCanonicalReference :: "string \<rightharpoonup> ApiItem"
  membersByName :: "(string \<rightharpoonup> ApiItem list) option"

record api_heap =
  ApiItem_parent :: "nat \<Rightarrow> nat option"
  container :: "nat \<Rightarrow> container_fields"

definition addMember :: "api_heap \<Rightarrow> nat \<Rightarrow> ApiItem \<Rightarrow> error option \<times> api_heap" where
  "addMember h this member =
     (if membersByCanonicalReference (container h this) (canonicalReference member) \<noteq> None
      then (Some DuplicateCanonicalReference, h)
      else case ApiItem_parent h (item_id member) of
        Some existingParent \<Rightarrow> (Some (AlreadyInContainer existingParent), h)
      | None \<Rightarrow>
          (None,
           h\<lparr>container := (container h)(this :=
                (container h this)\<lparr>
                  members := members (container h this) @ [member],
                  membersByName := None,
                  membersSorted := False,
                  membersByCanonicalReference :=
                    (membersByCanonicalReference (container h this))
                      (canonicalReference member \<mapsto> member)\<rparr>),
              ApiItem_parent := (ApiItem_parent h)(item_id member \<mapsto> this)\<rparr>))"

definition empty_api_heap :: api_heap where
  "empty_api_heap =
     \<lparr>ApiItem_parent = (\<lambda>_. None),
      container = (\<lambda>_. \<lparr>members = [], membersSorted = False,
                           membersByCanonicalReference = Map.empty, membersByName = None\<rparr>)\<rparr>"

definition tryGetMember :: "api_heap \<Rightarrow> nat \<Rightarrow> string \<Rightarrow> ApiItem option" where
  "tryGetMember h this ref = membersByCanonicalReference (container h this) ref"

text \<open>
  A history of \<open>addMember\<close> calls, each on some container with some member. A call that
  throws changes nothing, so the heap after the history is the heap each call left behind.
\<close>

fun addMembers :: "api_heap \<Rightarrow> (nat \<times> ApiItem) list \<Rightarrow> api_heap" where
  "addMembers h [] = h"
| "addMembers h ((c, m) # calls) = addMembers (snd (addMember h c m)) calls"

section \<open>ReviewFileGenerator: the AEDoc synopsis\<close>

text \<open>
  \<open>ReleaseTag\<close> is the enum of \<open>aedoc/ReleaseTag\<close>, with the five values the data model
  gives it. \<open>collector.fetchMetadata\<close> is a lookup in the collector; the two records it
  returns are the arguments here.
\<close>

datatype ReleaseTag = ReleaseTag_None | Internal | Alpha | Beta | Public

record DocComment =
  deprecatedBlock :: "string option"

record DeclarationMetadata =
  tsdocComment :: "DocComment option"
  needsDocumentation :: bool
  isEventProperty :: bool
  isOverride :: bool
  isPreapproved :: bool
  isSealed :: bool
  isVirtual :: bool

record SymbolMetadata =
  releaseTag :: ReleaseTag
  releaseTagSameAsParent :: bool

text \<open>\<open>Array.prototype.join\<close>, and the character \<open>\n\<close>.\<close>

fun join :: "string \<Rightarrow> string list \<Rightarrow> string" where
  "join sep [] = []"
| "join sep [x] = x"
| "join sep (x # y # ys) = x @ sep @ join sep (y # ys)"

definition newline :: char where
  "newline = CHR 0x0A"

definition writeLineAsComment :: "string \<Rightarrow> string \<Rightarrow> string" where
  "writeLineAsComment output line = ((output @ ''// '') @ line) @ [newline]"

definition push :: "'a list \<Rightarrow> 'a \<Rightarrow> 'a list" where
  "push xs x = xs @ [x]"

definition getAedocSynopsis :: "SymbolMetadata \<Rightarrow> DeclarationMetadata \<Rightarrow> string" where
  "getAedocSynopsis symbolMetadata declarationMetadata =
     (let footerParts = [];
          footerParts =
            (if \<not> releaseTagSameAsParent symbolMetadata then
               (case releaseTag symbolMetadata of
                  Internal \<Rightarrow> push footerParts ''@internal''
                | Alpha \<Rightarrow> push footerParts ''@alpha''
                | Beta \<Rightarrow> push footerParts ''@beta''
                | Public \<Rightarrow> push footerParts ''@public''
                | ReleaseTag_None \<Rightarrow> footerParts)
             else footerParts);
          footerParts = (if isSealed declarationMetadata then push footerParts ''@sealed'' else footerParts);
          footerParts = (if isVirtual declarationMetadata then push footerParts ''@virtual'' else footerParts);
          footerParts = (if isOverride declarationMetadata then push footerParts ''@override'' else footerParts);
          footerParts =
            (if isEventProperty declarationMetadata then push footerParts ''@eventproperty'' else footerParts);
          footerParts =
            (case tsdocComment declarationMetadata of
               Some c \<Rightarrow> (if deprecatedBlock c \<noteq> None then push footerParts ''@deprecated'' else footerParts)
             | None \<Rightarrow> footerParts);
          footerParts =
            (if needsDocumentation declarationMetadata then push footerParts ''(undocumented)'' else footerParts)
      in if length footerParts > 0 then writeLineAsComment [] (join '' '' footerParts) else [])"

text \<open>
  The synopsis as the specification words it: the tokens that apply, picked from one
  fixed list in its order.
\<close>

definition synopsisTokens :: "SymbolMetadata \<Rightarrow> DeclarationMetadata \<Rightarrow> string list" where
  "synopsisTokens symbolMetadata declarationMetadata =
     map snd (filter fst
       [(\<not> releaseTagSameAsParent symbolMetadata \<and> releaseTag symbolMetadata = Internal, ''@internal''),
        (\<not> releaseTagSameAsParent symbolMetadata \<and> releaseTag symbolMetadata = Alpha, ''@alpha''),
        (\<not> releaseTagSameAsParent symbolMetadata \<and> releaseTag symbolMetadata = Beta, ''@beta''),
        (\<not> releaseTagSameAsParent symbolMetadata \<and> releaseTag symbolMetadata = Public, ''@public''),
        (isSealed declarationMetadata, ''@sealed''),
        (isVirtual declarationMetadata, ''@virtual''),
        (isOverride declarationMetadata, ''@override''),
        (isEventProperty declarationMetadata, ''@eventproperty''),
        ((case tsdocComment declarationMetadata of
            Some c \<Rightarrow> deprecatedBlock c \<noteq> None | None \<Rightarrow> False), ''@deprecated''),
        (needsDocumentation declarationMetadata, ''(undocumented)'')])"

section \<open>ReviewFileGenerator: areEquivalentApiFileContents\<close>

text \<open>
  A JavaScript string is a sequence of UTF-16 code units. Only this function looks at
  their values, so only here they are 16-bit words; elsewhere a \<open>char\<close> of HOL stands for
  one code unit. \<open>isWhiteSpace\<close> is the class \<open>\s\<close> of a regular expression without the
  \<open>u\<close> flag: the ECMAScript white space and line terminator code points.
  \<open>replaceWhitespaceRuns\<close> is \<open>.replace(/[\s]+/g, ' ')\<close>: scanning from the left, the
  greedy \<open>+\<close> takes the whole run at the first white space it meets, the run is replaced
  by one space and the scan goes on behind it.
\<close>

type_synonym code_unit = "16 word"
type_synonym js_string = "code_unit list"

definition isWhiteSpace :: "code_unit \<Rightarrow> bool" where
  "isWhiteSpace c =
     (c \<in> {0x09, 0x0A, 0x0B, 0x0C, 0x0D, 0x20, 0xA0, 0x1680, 0x2028, 0x2029, 0x202F, 0x205F,
            0x3000, 0xFEFF} \<or> (0x2000 \<le> c \<and> c \<le> 0x200A))"

function replaceWhitespaceRuns :: "js_string \<Rightarrow> js_string" where
  "replaceWhitespaceRuns [] = []"
| "replaceWhitespaceRuns (c # cs) =
     (if isWhiteSpace c then 0x20 # replaceWhitespaceRuns (dropWhile isWhiteSpace cs)
      else c # replaceWhitespaceRuns cs)"
  by pat_completeness auto
termination
  by (relation "measure length") (auto simp: length_dropWhile_le less_Suc_eq_le)

definition areEquivalentApiFileContents :: "js_string \<Rightarrow> js_string \<Rightarrow> bool" where
  "areEquivalentApiFileContents actualFileContent expectedFileContent =
     (let normalizedActual = replaceWhitespaceRuns actualFileContent;
          normalizedExpected = replaceWhitespaceRuns expectedFileContent
      in normalizedActual = normalizedExpected)"

text \<open>
  The specification's wording, independent of the scan: cut the string into its maximal
  runs (of white space, or of other code units), replace every white-space run by one
  space, and put the pieces together. Two strings differ only by runs of white space when
  their maximal runs correspond one to one, equal or both white space.
\<close>

fun maximalRuns :: "('a \<Rightarrow> bool) \<Rightarrow> 'a list \<Rightarrow> 'a list list" where
  "maximalRuns P [] = []"
| "maximalRuns P (x # xs) =
     (case maximalRuns P xs of
        [] \<Rightarrow> [[x]]
      | g # gs \<Rightarrow> if P x = P (hd g) then (x # g) # gs else [x] # g # gs)"

definition collapseRun :: "js_string \<Rightarrow> js_string" where
  "collapseRun g = (if isWhiteSpace (hd g) then [0x20] else g)"

definition collapseWhitespace :: "js_string \<Rightarrow> js_string" where
  "collapseWhitespace s = concat (map collapseRun (maximalRuns isWhiteSpace s))"

definition differOnlyByWhitespaceRuns :: "js_string \<Rightarrow> js_string \<Rightarrow> bool" where
  "differOnlyByWhitespaceRuns s s' =
     list_all2 (\<lambda>g g'. g = g' \<or> (isWhiteSpace (hd g) \<and> isWhiteSpace (hd g')))
       (maximalRuns isWhiteSpace s) (maximalRuns isWhiteSpace s')"

section \<open>Span (analyzer/Span.ts)\<close>

text \<open>
  A \<open>ts.Node\<close> of the compiler is known here by what \<open>Span\<close> reads of it: its kind, the
  positions \<open>getStart()\<close> and \<open>end\<close>, and \<open>getChildren()\<close>. The text of the source file,
  \<open>node.getSourceFile().text\<close>, is the same for a whole tree and is an argument of every
  function that reads it. \<open>substring\<close> is \<open>String.prototype.substring\<close> on indices that
  are natural numbers: both are clamped to the length and swapped when out of order.
\<close>

datatype SyntaxKind =
    JSDocComment | ExportKeyword | DefaultKeyword | SyntaxList | ModuleBlock
  | VariableDeclaration | VariableDeclarationList | Identifier | OtherKind nat

datatype Node =
  Node (node_id: nat) (kind: SyntaxKind) (getStart: nat) (node_end: nat) (getChildren: "Node list")

definition substring :: "string \<Rightarrow> nat \<Rightarrow> nat \<Rightarrow> string" where
  "substring s indexStart indexEnd =
     (let a = min indexStart (length s); b = min indexEnd (length s)
      in take (max a b - min a b) (drop (min a b) s))"

text \<open>
  \<open>SpanModification\<close>: the four public fields and the private \<open>_prefix\<close> and \<open>_suffix\<close>,
  \<open>None\<close> for \<open>undefined\<close>. Its accessors \<open>prefix\<close> and \<open>suffix\<close> read the span and are
  defined after it.
\<close>

record SpanModification =
  omitChildren :: bool
  omitSeparatorAfter :: bool
  sortChildren :: bool
  sortKey :: "string option"
  prefix_override :: "string option"
  suffix_override :: "string option"

definition SpanModification_reset :: SpanModification where
  "SpanModification_reset =
     \<lparr>omitChildren = False, omitSeparatorAfter = False, sortChildren = False, sortKey = None,
      prefix_override = None, suffix_override = None\<rparr>"

definition skipAll :: "SpanModification \<Rightarrow> SpanModification" where
  "skipAll m = m\<lparr>prefix_override := Some [], suffix_override := Some [],
                 omitChildren := True, omitSeparatorAfter := True\<rparr>"

text \<open>
  A \<open>Span\<close> object. The links \<open>_parent\<close>, \<open>_previousSibling\<close> and \<open>_nextSibling\<close> are
  determined by the position of the span in the tree and are not stored; where a
  function reads \<open>span.parent\<close>, the parent is an argument.
\<close>

datatype Span =
  Span (node: Node) (startIndex: nat) (endIndex: nat) (children: "Span list")
       (modification: SpanModification) (separatorStartIndex: nat) (separatorEndIndex: nat)

text \<open>
  The \<open>while\<close> loop of the constructor that walks from the previous child down its last
  children as long as they end where their parent ends, and the two assignments to the
  \<open>separatorRecipient\<close> it finds. The recipient is an object inside the tree of the
  previous child, so the result is that tree with the recipient updated in place.
\<close>

function assignSeparator :: "nat \<Rightarrow> nat \<Rightarrow> Span \<Rightarrow> Span" where
  "assignSeparator s e (Span n st en cs m ss se) =
     (if length cs > 0 \<and> endIndex (last cs) = en
      then Span n st en (butlast cs @ [assignSeparator s e (last cs)]) m ss se
      else Span n st en cs m s e)"
  by pat_completeness auto
termination
proof (relation "measure (\<lambda>(s, e, sp). size sp)")
  show "wf (measure (\<lambda>(s, e, sp). size sp))" by simp
next
  fix s e :: nat and n st en and cs :: "Span list" and m ss se
  assume "0 < length cs \<and> endIndex (last cs) = en"
  then have "last cs \<in> set cs" by simp
  then have "size (last cs) \<le> size_list size cs" by (rule size_list_estimation') simp
  then show "((s, e, last cs), (s, e, Span n st en cs m ss se)) \<in> measure (\<lambda>(s, e, sp). size sp)"
    by simp
qed

text \<open>
  The constructor. \<open>Span_loop\<close> is its \<open>for\<close> loop over \<open>getChildren()\<close>, with the
  current \<open>endIndex\<close>, \<open>startIndex\<close> and \<open>children\<close> of the span under construction;
  \<open>previousChildSpan\<close> is the last element of \<open>children\<close> when there is one.
\<close>

fun Span_new :: "Node \<Rightarrow> error + Span"
  and Span_loop :: "nat \<Rightarrow> nat \<Rightarrow> Span list \<Rightarrow> Node list \<Rightarrow> error + (nat \<times> Span list)" where
  "Span_new (Node i k st en ns) =
     (case Span_loop en st [] ns of
        Inl e \<Rightarrow> Inl e
      | Inr (st', cs) \<Rightarrow> Inr (Span (Node i k st en ns) st' en cs SpanModification_reset 0 0))"
| "Span_loop en st cs [] = Inr (st, cs)"
| "Span_loop en st cs (childNode # ns) =
     (case Span_new childNode of
        Inl e \<Rightarrow> Inl e
      | Inr childSpan \<Rightarrow>
          let st' = (if startIndex childSpan < st then startIndex childSpan else st) in
          if endIndex childSpan > en then Inl UnexpectedAstCase
          else
            let cs' =
              (if cs \<noteq> [] \<and> endIndex (last cs) < startIndex childSpan
               then butlast cs @ [assignSeparator (endIndex (last cs)) (startIndex childSpan) (last cs)]
               else cs)
            in Span_loop en st' (cs' @ [childSpan]) ns)"

text \<open>The accessors \<open>prefix\<close>, \<open>suffix\<close> and \<open>separator\<close>, and \<open>_getSubstring\<close>.\<close>

definition getSubstring :: "string \<Rightarrow> nat \<Rightarrow> nat \<Rightarrow> string" where
  "getSubstring text startIndex' endIndex' =
     (if startIndex' = endIndex' then [] else substring text startIndex' endIndex')"

definition prefix :: "string \<Rightarrow> Span \<Rightarrow> string" where
  "prefix text sp =
     (if length (children sp) \<noteq> 0
      then getSubstring text (startIndex sp) (startIndex (children sp ! 0))
      else getSubstring text (startIndex sp) (endIndex sp))"

definition suffix :: "string \<Rightarrow> Span \<Rightarrow> string" where
  "suffix text sp =
     (if length (children sp) \<noteq> 0
      then getSubstring text (endIndex (children sp ! (length (children sp) - 1))) (endIndex sp)
      else [])"

definition separator :: "string \<Rightarrow> Span \<Rightarrow> string" where
  "separator text sp = getSubstring text (separatorStartIndex sp) (separatorEndIndex sp)"

definition modification_prefix :: "string \<Rightarrow> Span \<Rightarrow> string" where
  "modification_prefix text sp =
     (case prefix_override (modification sp) of Some p \<Rightarrow> p | None \<Rightarrow> prefix text sp)"

definition modification_suffix :: "string \<Rightarrow> Span \<Rightarrow> string" where
  "modification_suffix text sp =
     (case suffix_override (modification sp) of Some p \<Rightarrow> p | None \<Rightarrow> suffix text sp)"

function getLastInnerSeparator :: "string \<Rightarrow> Span \<Rightarrow> string" where
  "getLastInnerSeparator text sp =
     (if separator text sp \<noteq> [] then separator text sp
      else if length (children sp) > 0
      then getLastInnerSeparator text (children sp ! (length (children sp) - 1))
      else [])"
  by pat_completeness auto
termination
proof (relation "measure (\<lambda>(t, sp). size sp)")
  show "wf (measure (\<lambda>(t, sp). size sp))" by simp
next
  fix t :: string and sp :: Span
  assume "0 < length (children sp)"
  then have "children sp ! (length (children sp) - 1) \<in> set (children sp)" by simp
  then have "size (children sp ! (length (children sp) - 1)) \<le> size_list size (children sp)"
    by (rule size_list_estimation') simp
  then show "((t, children sp ! (length (children sp) - 1)), (t, sp))
      \<in> measure (\<lambda>(t, sp). size sp)"
    by (cases sp) simp
qed

fun getText :: "string \<Rightarrow> Span \<Rightarrow> string" where
  "getText text (Span n st en cs m ss se) =
     ((prefix text (Span n st en cs m ss se) @ concat (map (getText text) cs))
        @ suffix text (Span n st en cs m ss se))
       @ separator text (Span n st en cs m ss se)"

text \<open>
  Notions for stating the properties of the constructor. \<open>spanStart\<close> is the start
  index the constructor arrives at: the least \<open>getStart()\<close> of the node and its
  descendants. A tree is \<open>wellFormed\<close> when it has the shape of a parser's tree: no node
  ends before it starts, and of two neighbouring children the first ends before the second
  (with what it contains) begins. \<open>endsWithinParents\<close>: no node ends after its parent.
\<close>

fun spanStart :: "Node \<Rightarrow> nat" where
  "spanStart (Node i k st en ns) = fold min (map spanStart ns) st"

fun inSourceOrder :: "Node list \<Rightarrow> bool" where
  "inSourceOrder (a # b # ns) = (node_end a \<le> spanStart b \<and> inSourceOrder (b # ns))"
| "inSourceOrder ns = True"

fun wellFormed :: "Node \<Rightarrow> bool" where
  "wellFormed (Node i k st en ns) = (st \<le> en \<and> list_all wellFormed ns \<and> inSourceOrder ns)"

fun endsWithinParents :: "Node \<Rightarrow> bool" where
  "endsWithinParents (Node i k st en ns) = list_all (\<lambda>c. node_end c \<le> en \<and> endsWithinParents c) ns"

text \<open>
  Two invariants of the constructor's loop, used in the proofs only: a span none of
  whose last descendants has a separator yet, and a list of children whose texts together
  are the source text from the start of the first to the end of the last.
\<close>

inductive sepFree :: "Span \<Rightarrow> bool" where
  leaf: "ss = se \<Longrightarrow> sepFree (Span n st en [] m ss se)"
| inner: "ss = se \<Longrightarrow> cs \<noteq> [] \<Longrightarrow> sepFree (last cs) \<Longrightarrow> sepFree (Span n st en cs m ss se)"

definition coversText :: "string \<Rightarrow> Span list \<Rightarrow> bool" where
  "coversText t cs \<longleftrightarrow>
     (cs \<noteq> [] \<longrightarrow>
        concat (map (getText t) cs) = substring t (startIndex (hd cs)) (endIndex (last cs)) \<and>
        sepFree (last cs) \<and> startIndex (hd cs) \<le> endIndex (last cs))"

section \<open>Properties of AstDeclaration\<close>

text \<open>
  Claim C7. Once the symbol of a declaration is analyzed, \<open>_notifyChildAttach\<close> and
  \<open>_notifyReferencedAstSymbol\<close> on that declaration both throw; and
  \<open>_notifyChildAttach\<close> throws for a child whose \<open>parent\<close> is not the receiver, whatever
  the flag says.
\<close>

theorem freeze_after_analysis:
  "(analyzed h (astSymbol this) \<longrightarrow>
      (\<exists>e. notifyChildAttach h this child = Inl e) \<and>
      notifyReferencedAstSymbol h this s = Inl ReferenceAfterAnalysis) \<and>
   (parent child \<noteq> Some this \<longrightarrow> notifyChildAttach h this child = Inl InvalidNotifyChildAttach)"
  by (simp add: notifyChildAttach_def notifyReferencedAstSymbol_def)

theorem freeze_after_analysis_witness:
  "analyzed (fresh_heap\<lparr>analyzed := (\<lambda>s. s = 1)\<rparr>) (astSymbol (AstDeclaration 0 10 1 None)) \<and>
   notifyChildAttach (fresh_heap\<lparr>analyzed := (\<lambda>s. s = 1)\<rparr>) (AstDeclaration 0 10 1 None)
     (AstDeclaration 1 11 2 (Some (AstDeclaration 0 10 1 None))) = Inl ChildAttachAfterAnalysis \<and>
   notifyReferencedAstSymbol (fresh_heap\<lparr>analyzed := (\<lambda>s. s = 1)\<rparr>) (AstDeclaration 0 10 1 None) 5
     = Inl ReferenceAfterAnalysis \<and>
   parent (AstDeclaration 2 12 3 None) \<noteq> Some (AstDeclaration 0 10 1 None) \<and>
   notifyChildAttach fresh_heap (AstDeclaration 0 10 1 None) (AstDeclaration 2 12 3 None)
     = Inl InvalidNotifyChildAttach"
  using freeze_after_analysis [of "fresh_heap\<lparr>analyzed := (\<lambda>s. s = 1)\<rparr>" "AstDeclaration 0 10 1 None"
      "AstDeclaration 1 11 2 (Some (AstDeclaration 0 10 1 None))" 5]
    freeze_after_analysis [of fresh_heap "AstDeclaration 0 10 1 None" "AstDeclaration 2 12 3 None" 5]
  by (simp add: notifyChildAttach_def fresh_heap_def)




section \<open>Properties of ApiItemContainerMixin\<close>

lemma addMember_keeps:
  "membersByCanonicalReference (container h c) k = Some m \<Longrightarrow>
     membersByCanonicalReference (container (snd (addMember h c' m')) c) k = Some m"
  "ApiItem_parent h i = Some p \<Longrightarrow> ApiItem_parent (snd (addMember h c' m')) i = Some p"
  by (auto simp: addMember_def split: option.splits)

lemma addMembers_keeps:
  "membersByCanonicalReference (container h c) k = Some m \<Longrightarrow>
     membersByCanonicalReference (container (addMembers h calls) c) k = Some m"
  "ApiItem_parent h i = Some p \<Longrightarrow> ApiItem_parent (addMembers h calls) i = Some p"
  by (induction h calls rule: addMembers.induct) (simp_all add: addMember_keeps)

text \<open>
  Claim C8. \<open>addMember\<close> throws when the member already has a parent or when the
  container already holds a member with the same canonical reference, and then leaves the
  whole heap (the member list, the lookup maps, every parent field) as it was. A
  successful call makes the container the member's parent, appends the member, registers
  its canonical reference and changes nothing else: no other parent field, no other
  container, no other key of the lookup map. Over histories: once a member was added to
  a container, after any number of further calls (successful or not, on any containers)
  the member still has that parent and is still registered, every member with the same
  canonical reference is refused by that container, and the member itself is refused by
  every container, each refusal leaving the heap unchanged.
\<close>

theorem addMember_single_container:
  "(ApiItem_parent h (item_id member) \<noteq> None \<or>
    membersByCanonicalReference (container h this) (canonicalReference member) \<noteq> None \<longrightarrow>
      fst (addMember h this member) \<noteq> None \<and> snd (addMember h this member) = h) \<and>
   (ApiItem_parent h (item_id member) = None \<and>
    membersByCanonicalReference (container h this) (canonicalReference member) = None \<longrightarrow>
      fst (addMember h this member) = None \<and>
      ApiItem_parent (snd (addMember h this member)) = (ApiItem_parent h)(item_id member \<mapsto> this) \<and>
      (\<forall>c. c \<noteq> this \<longrightarrow> container (snd (addMember h this member)) c = container h c) \<and>
      container (snd (addMember h this member)) this =
        \<lparr>members = members (container h this) @ [member], membersSorted = False,
         membersByCanonicalReference =
           (membersByCanonicalReference (container h this))(canonicalReference member \<mapsto> member),
         membersByName = None\<rparr>) \<and>
   (fst (addMember (addMembers h earlier) this member) = None \<longrightarrow>
      ApiItem_parent (addMembers (snd (addMember (addMembers h earlier) this member)) later)
        (item_id member) = Some this \<and>
      tryGetMember (addMembers (snd (addMember (addMembers h earlier) this member)) later) this
        (canonicalReference member) = Some member \<and>
      (\<forall>other. canonicalReference other = canonicalReference member \<longrightarrow>
         addMember (addMembers (snd (addMember (addMembers h earlier) this member)) later) this other
           = (Some DuplicateCanonicalReference,
              addMembers (snd (addMember (addMembers h earlier) this member)) later)) \<and>
      (\<forall>that. fst (addMember (addMembers (snd (addMember (addMembers h earlier) this member)) later)
                  that member) \<noteq> None \<and>
         snd (addMember (addMembers (snd (addMember (addMembers h earlier) this member)) later)
                  that member)
           = addMembers (snd (addMember (addMembers h earlier) this member)) later))"
proof (intro conjI impI)
  assume ok: "fst (addMember (addMembers h earlier) this member) = None"
  define h1 where "h1 = snd (addMember (addMembers h earlier) this member)"
  define h2 where "h2 = addMembers h1 later"
  from ok have "membersByCanonicalReference (container h1 this) (canonicalReference member) = Some member"
    and "ApiItem_parent h1 (item_id member) = Some this"
    by (auto simp: h1_def addMember_def split: option.splits if_splits)
  then have m: "membersByCanonicalReference (container h2 this) (canonicalReference member) = Some member"
    and p: "ApiItem_parent h2 (item_id member) = Some this"
    by (simp_all add: h2_def addMembers_keeps)
  show "ApiItem_parent (addMembers (snd (addMember (addMembers h earlier) this member)) later)
        (item_id member) = Some this"
    using p by (simp add: h1_def h2_def)
  show "tryGetMember (addMembers (snd (addMember (addMembers h earlier) this member)) later) this
        (canonicalReference member) = Some member"
    using m by (simp add: h1_def h2_def tryGetMember_def)
  have "\<forall>other. canonicalReference other = canonicalReference member \<longrightarrow>
         addMember h2 this other = (Some DuplicateCanonicalReference, h2)"
    using m by (simp add: addMember_def)
  then show "\<forall>other. canonicalReference other = canonicalReference member \<longrightarrow>
         addMember (addMembers (snd (addMember (addMembers h earlier) this member)) later) this other
           = (Some DuplicateCanonicalReference,
              addMembers (snd (addMember (addMembers h earlier) this member)) later)"
    by (simp add: h1_def h2_def)
  have "\<forall>that. fst (addMember h2 that member) \<noteq> None \<and> snd (addMember h2 that member) = h2"
    using p by (simp add: addMember_def)
  then show "\<forall>that. fst (addMember (addMembers (snd (addMember (addMembers h earlier) this member)) later)
                  that member) \<noteq> None \<and>
         snd (addMember (addMembers (snd (addMember (addMembers h earlier) this member)) later)
                  that member)
           = addMembers (snd (addMember (addMembers h earlier) this member)) later"
    by (simp add: h1_def h2_def)
qed (auto simp: addMember_def split: option.splits)

theorem addMember_single_container_witness:
  "fst (addMember empty_api_heap 0 \<lparr>item_id = 1, name = ''a'', canonicalReference = ''(a:class)''\<rparr>) = None \<and>
   ApiItem_parent (addMembers (snd (addMember empty_api_heap 0 \<lparr>item_id = 1, name = ''a'', canonicalReference = ''(a:class)''\<rparr>)) [(0, \<lparr>item_id = 2, name = ''b'', canonicalReference = ''(b:class)''\<rparr>)]) 1 = Some 0 \<and>
   addMember (addMembers (snd (addMember empty_api_heap 0 \<lparr>item_id = 1, name = ''a'', canonicalReference = ''(a:class)''\<rparr>)) [(0, \<lparr>item_id = 2, name = ''b'', canonicalReference = ''(b:class)''\<rparr>)]) 0 \<lparr>item_id = 3, name = ''a'', canonicalReference = ''(a:class)''\<rparr>
     = (Some DuplicateCanonicalReference, addMembers (snd (addMember empty_api_heap 0 \<lparr>item_id = 1, name = ''a'', canonicalReference = ''(a:class)''\<rparr>)) [(0, \<lparr>item_id = 2, name = ''b'', canonicalReference = ''(b:class)''\<rparr>)]) \<and>
   addMember (addMembers (snd (addMember empty_api_heap 0 \<lparr>item_id = 1, name = ''a'', canonicalReference = ''(a:class)''\<rparr>)) [(0, \<lparr>item_id = 2, name = ''b'', canonicalReference = ''(b:class)''\<rparr>)]) 5 \<lparr>item_id = 1, name = ''a'', canonicalReference = ''(a:class)''\<rparr>
     = (Some (AlreadyInContainer 0), addMembers (snd (addMember empty_api_heap 0 \<lparr>item_id = 1, name = ''a'', canonicalReference = ''(a:class)''\<rparr>)) [(0, \<lparr>item_id = 2, name = ''b'', canonicalReference = ''(b:class)''\<rparr>)]) \<and>
   members (container (addMembers (snd (addMember empty_api_heap 0 \<lparr>item_id = 1, name = ''a'', canonicalReference = ''(a:class)''\<rparr>)) [(0, \<lparr>item_id = 2, name = ''b'', canonicalReference = ''(b:class)''\<rparr>)]) 0) = [\<lparr>item_id = 1, name = ''a'', canonicalReference = ''(a:class)''\<rparr>, \<lparr>item_id = 2, name = ''b'', canonicalReference = ''(b:class)''\<rparr>]"
  using addMember_single_container [where h = empty_api_heap and this = 0 and earlier = "[]"
      and later = "[(0, \<lparr>item_id = 2, name = ''b'', canonicalReference = ''(b:class)''\<rparr>)]"
      and member = "\<lparr>item_id = 1, name = ''a'', canonicalReference = ''(a:class)''\<rparr>"]
    addMember_single_container [where h = "addMembers (snd (addMember empty_api_heap 0 \<lparr>item_id = 1, name = ''a'', canonicalReference = ''(a:class)''\<rparr>)) [(0, \<lparr>item_id = 2, name = ''b'', canonicalReference = ''(b:class)''\<rparr>)]" and this = 5 and earlier = "[]" and later = "[]"
      and member = "\<lparr>item_id = 1, name = ''a'', canonicalReference = ''(a:class)''\<rparr>"]
  by (simp add: empty_api_heap_def addMember_def)

section \<open>Properties of the AEDoc synopsis\<close>

lemma join_avoids:
  "c \<notin> set sep \<Longrightarrow> \<forall>x\<in>set xs. c \<notin> set x \<Longrightarrow> c \<notin> set (join sep xs)"
  by (induction sep xs rule: join.induct) auto

lemma synopsisTokens_one_line: "\<forall>x\<in>set (synopsisTokens sm dm). newline \<notin> set x"
  by (simp add: synopsisTokens_def newline_def)

lemma getAedocSynopsis_tokens:
  "getAedocSynopsis sm dm =
     (if synopsisTokens sm dm = [] then []
      else ''// '' @ join '' '' (synopsisTokens sm dm) @ [newline])"
  unfolding getAedocSynopsis_def Let_def push_def
  by (cases "releaseTag sm"; cases "tsdocComment dm")
     (simp_all add: synopsisTokens_def writeLineAsComment_def)

text \<open>
  Claim C5. \<open>_getAedocSynopsis\<close> returns the empty string when no token applies;
  otherwise it returns \<open>// \<close>, the applying tokens in the fixed order (release tag unless
  \<open>releaseTagSameAsParent\<close>, \<open>@sealed\<close>, \<open>@virtual\<close>, \<open>@override\<close>, \<open>@eventproperty\<close>,
  \<open>@deprecated\<close>, \<open>(undocumented)\<close>) joined by single spaces, and one line break, which is
  the only line break of the result.
\<close>

theorem aedoc_synopsis_content_and_order:
  "getAedocSynopsis sm dm =
     (if synopsisTokens sm dm = [] then []
      else ''// '' @ join '' '' (synopsisTokens sm dm) @ [newline]) \<and>
   newline \<notin> set (''// '' @ join '' '' (synopsisTokens sm dm))"
proof
  show "getAedocSynopsis sm dm =
     (if synopsisTokens sm dm = [] then []
      else ''// '' @ join '' '' (synopsisTokens sm dm) @ [newline])"
    by (rule getAedocSynopsis_tokens)
  have "newline \<notin> set (join '' '' (synopsisTokens sm dm))"
    by (rule join_avoids) (simp_all add: newline_def synopsisTokens_one_line [unfolded newline_def])
  then show "newline \<notin> set (''// '' @ join '' '' (synopsisTokens sm dm))"
    by (simp add: newline_def)
qed

theorem aedoc_synopsis_content_and_order_witness:
  "getAedocSynopsis \<lparr>releaseTag = Beta, releaseTagSameAsParent = False\<rparr>
     \<lparr>tsdocComment = Some \<lparr>deprecatedBlock = Some ''use g''\<rparr>, needsDocumentation = True,
      isEventProperty = False, isOverride = False, isPreapproved = False, isSealed = True,
      isVirtual = False\<rparr>
     = ''// @beta @sealed @deprecated (undocumented)'' @ [newline] \<and>
   getAedocSynopsis \<lparr>releaseTag = Public, releaseTagSameAsParent = True\<rparr>
     \<lparr>tsdocComment = None, needsDocumentation = False,
      isEventProperty = False, isOverride = False, isPreapproved = False, isSealed = False,
      isVirtual = False\<rparr> = []"
  using aedoc_synopsis_content_and_order [of "\<lparr>releaseTag = Beta, releaseTagSameAsParent = False\<rparr>"
     "\<lparr>tsdocComment = Some \<lparr>deprecatedBlock = Some ''use g''\<rparr>, needsDocumentation = True,
      isEventProperty = False, isOverride = False, isPreapproved = False, isSealed = True,
      isVirtual = False\<rparr>"]
    aedoc_synopsis_content_and_order [of "\<lparr>releaseTag = Public, releaseTagSameAsParent = True\<rparr>"
     "\<lparr>tsdocComment = None, needsDocumentation = False,
      isEventProperty = False, isOverride = False, isPreapproved = False, isSealed = False,
      isVirtual = False\<rparr>"]
  by (simp add: synopsisTokens_def)

section \<open>Properties of areEquivalentApiFileContents\<close>

lemma maximalRuns_Cons:
  "maximalRuns P (x # xs) \<noteq> [] \<and> hd (maximalRuns P (x # xs)) \<noteq> [] \<and>
   hd (hd (maximalRuns P (x # xs))) = x"
  by (simp split: list.split)

lemma collapseWhitespace_Cons:
  "collapseWhitespace (c # cs) =
    (if isWhiteSpace c then
       (case cs of
          [] \<Rightarrow> [0x20]
        | c' # t \<Rightarrow> if isWhiteSpace c' then collapseWhitespace cs else 0x20 # collapseWhitespace cs)
     else c # collapseWhitespace cs)"
proof (cases cs)
  case Nil
  then show ?thesis by (simp add: collapseWhitespace_def collapseRun_def)
next
  case (Cons c' t)
  obtain g gs where g: "maximalRuns isWhiteSpace (c' # t) = g # gs" "g \<noteq> []" "hd g = c'"
    using maximalRuns_Cons [of isWhiteSpace c' t] by (cases "maximalRuns isWhiteSpace (c' # t)") auto
  show ?thesis using g Cons
    by (cases g)
       (auto simp add: collapseWhitespace_def collapseRun_def maximalRuns.simps(2) [of _ c "c' # t"]
             simp del: maximalRuns.simps(2))
qed

lemma replaceWhitespaceRuns_collapse: "replaceWhitespaceRuns s = collapseWhitespace s"
proof (induction s)
  case Nil
  then show ?case by (simp add: collapseWhitespace_def)
next
  case (Cons c cs)
  show ?case
  proof (cases cs)
    case Nil
    then show ?thesis by (simp add: collapseWhitespace_Cons) (simp add: collapseWhitespace_def)
  next
    case (Cons c' t)
    with Cons.IH show ?thesis
      by (auto simp add: collapseWhitespace_Cons [of c] split: if_splits)
  qed
qed

lemma differOnlyByWhitespaceRuns_collapse:
  "differOnlyByWhitespaceRuns s s' \<Longrightarrow> collapseWhitespace s = collapseWhitespace s'"
  unfolding differOnlyByWhitespaceRuns_def collapseWhitespace_def
  by (induction rule: list_all2_induct) (auto simp: collapseRun_def)

text \<open>
  Claim C3. \<open>areEquivalentApiFileContents\<close> returns true exactly when the two strings
  are the same after every maximal run of white space (space, tab, CR and LF among it) is
  replaced by one space; so it returns true for two strings that differ only by runs of
  white space.
\<close>

theorem areEquivalentApiFileContents_iff:
  "(areEquivalentApiFileContents s s' \<longleftrightarrow> collapseWhitespace s = collapseWhitespace s') \<and>
   (differOnlyByWhitespaceRuns s s' \<longrightarrow> areEquivalentApiFileContents s s') \<and>
   isWhiteSpace 0x20 \<and> isWhiteSpace 0x09 \<and> isWhiteSpace 0x0D \<and> isWhiteSpace 0x0A"
  by (simp add: areEquivalentApiFileContents_def replaceWhitespaceRuns_collapse
      differOnlyByWhitespaceRuns_collapse isWhiteSpace_def)

theorem areEquivalentApiFileContents_iff_witness:
  "differOnlyByWhitespaceRuns [0x61, 0x20, 0x09, 0x62, 0x0A] [0x61, 0x0D, 0x0A, 0x62, 0x20] \<and>
   areEquivalentApiFileContents [0x61, 0x20, 0x09, 0x62, 0x0A] [0x61, 0x0D, 0x0A, 0x62, 0x20] \<and>
   collapseWhitespace [0x61, 0x20, 0x09, 0x62, 0x0A] = [0x61, 0x20, 0x62, 0x20] \<and>
   \<not> areEquivalentApiFileContents [0x61, 0x62] [0x61, 0x20, 0x62]"
  using areEquivalentApiFileContents_iff [of "[0x61, 0x20, 0x09, 0x62, 0x0A]" "[0x61, 0x0D, 0x0A, 0x62, 0x20]"]
    areEquivalentApiFileContents_iff [of "[0x61, 0x62]" "[0x61, 0x20, 0x62]"]
  by (simp add: differOnlyByWhitespaceRuns_def collapseWhitespace_def collapseRun_def isWhiteSpace_def)

section \<open>Properties of the Span constructor and getText\<close>

declare getLastInnerSeparator.simps [simp del]

lemma assignSeparator_fields [simp]:
  "startIndex (assignSeparator s e sp) = startIndex sp"
  "endIndex (assignSeparator s e sp) = endIndex sp"
  "node (assignSeparator s e sp) = node sp"
  by (induction s e sp rule: assignSeparator.induct; simp)+

lemma Span_errors:
  "Span_new n = Inl e \<Longrightarrow> e = UnexpectedAstCase"
  "Span_loop en st cs ns = Inl e \<Longrightarrow> e = UnexpectedAstCase"
  by (induction n and en st cs ns rule: Span_new_Span_loop.induct)
     (auto split: sum.splits if_splits simp: Let_def)

lemma Span_shape:
  "Span_new n = Inr sp \<Longrightarrow>
     node sp = n \<and> endIndex sp = node_end n \<and> startIndex sp = spanStart n \<and>
     map node (children sp) = getChildren n \<and>
     map startIndex (children sp) = map spanStart (getChildren n) \<and>
     map endIndex (children sp) = map node_end (getChildren n) \<and>
     list_all (\<lambda>c. node_end c \<le> node_end n) (getChildren n) \<and>
     separatorStartIndex sp = 0 \<and> separatorEndIndex sp = 0 \<and>
     modification sp = SpanModification_reset"
  "Span_loop en st cs ns = Inr (st', cs') \<Longrightarrow>
     map node cs' = map node cs @ ns \<and>
     map startIndex cs' = map startIndex cs @ map spanStart ns \<and>
     map endIndex cs' = map endIndex cs @ map node_end ns \<and>
     list_all (\<lambda>c. node_end c \<le> en) ns \<and>
     st' = fold min (map spanStart ns) st"
proof (induction n and en st cs ns arbitrary: sp and st' cs' rule: Span_new_Span_loop.induct)
  case (1 i k st en ns)
  then show ?case by (auto split: sum.splits prod.splits)
next
  case (2 en st cs)
  then show ?case by simp
next
  case (3 en st cs childNode ns)
  from "3.prems" obtain childSpan where c: "Span_new childNode = Inr childSpan"
    by (auto split: sum.splits)
  note ih1 = "3.IH"(1) [OF c]
  let ?st1 = "if startIndex childSpan < st then startIndex childSpan else st"
  let ?cs1 = "if cs \<noteq> [] \<and> endIndex (last cs) < startIndex childSpan
               then butlast cs @ [assignSeparator (endIndex (last cs)) (startIndex childSpan) (last cs)]
               else cs"
  from "3.prems" c have le: "\<not> en < endIndex childSpan" and
    rest: "Span_loop en ?st1 (?cs1 @ [childSpan]) ns = Inr (st', cs')"
    by (auto simp: Let_def split: if_splits)
  note ih2 = "3.IH"(2) [OF c refl _ refl rest]
  have m1: "map startIndex ?cs1 = map startIndex cs" "map endIndex ?cs1 = map endIndex cs"
    "map node ?cs1 = map node cs"
    by (auto simp: map_butlast [symmetric] snoc_eq_iff_butlast last_map)
  have "?st1 = min (spanStart childNode) st" using ih1 by (auto simp: min_def)
  with ih2 m1 ih1 le show ?case
    by (simp add: not_less)
qed

lemma sepFree_Span:
  "sepFree (Span n st en cs m ss se) \<longleftrightarrow> ss = se \<and> (cs \<noteq> [] \<longrightarrow> sepFree (last cs))"
  by (auto elim: sepFree.cases intro: sepFree.intros)

lemma substring_append:
  "a \<le> b \<Longrightarrow> b \<le> c \<Longrightarrow> substring t a b @ substring t b c = substring t a c"
proof -
  assume ab: "a \<le> b" and bc: "b \<le> c"
  let ?a = "min a (length t)" and ?b = "min b (length t)" and ?c = "min c (length t)"
  have le: "?a \<le> ?b" "?b \<le> ?c" using ab bc by (auto simp: min_def)
  have "take (?b - ?a) (drop ?a t) @ take (?c - ?b) (drop ?b t) = take (?c - ?a) (drop ?a t)"
  proof -
    have "drop ?b t = drop (?b - ?a) (drop ?a t)" using le by simp
    then have "take (?b - ?a) (drop ?a t) @ take (?c - ?b) (drop ?b t)
       = take (?b - ?a) (drop ?a t) @ take (?c - ?b) (drop (?b - ?a) (drop ?a t))" by simp
    also have "\<dots> = take ((?b - ?a) + (?c - ?b)) (drop ?a t)" by (simp only: take_add)
    also have "(?b - ?a) + (?c - ?b) = ?c - ?a" using le by linarith
    finally show ?thesis .
  qed
  with le show ?thesis by (simp add: substring_def Let_def max_def min_def)
qed

lemma substring_same [simp]: "substring t a a = []"
  by (simp add: substring_def)

lemma getSubstring_substring [simp]: "getSubstring t a b = substring t a b"
  by (simp add: getSubstring_def)

lemma getText_assignSeparator:
  "sepFree sp \<Longrightarrow> getText t (assignSeparator s e sp) = getText t sp @ substring t s e"
proof (induction s e sp rule: assignSeparator.induct)
  case (1 s e n st en cs m ss se)
  show ?case
  proof (cases "length cs > 0 \<and> endIndex (last cs) = en")
    case True
    then have cs: "cs \<noteq> []" by auto
    from "1.prems" cs have sf: "ss = se" "sepFree (last cs)" by (auto simp: sepFree_Span)
    have ih: "getText t (assignSeparator s e (last cs)) = getText t (last cs) @ substring t s e"
      using "1.IH" True sf by simp
    have "concat (map (getText t) (butlast cs @ [assignSeparator s e (last cs)]))
        = concat (map (getText t) (butlast cs @ [last cs])) @ substring t s e"
      by (simp add: ih)
    then have c: "concat (map (getText t) (butlast cs @ [assignSeparator s e (last cs)]))
        = concat (map (getText t) cs) @ substring t s e"
      using cs by simp
    define cs2 where "cs2 = butlast cs @ [assignSeparator s e (last cs)]"
    have len: "length cs2 = length cs" "cs2 \<noteq> []" using cs by (simp_all add: cs2_def)
    have p: "startIndex (cs2 ! 0) = startIndex (cs ! 0)"
      using cs by (cases cs) (auto simp: cs2_def nth_append)
    have "last cs2 = assignSeparator s e (last cs)" by (simp add: cs2_def)
    moreover have "last cs2 = cs2 ! (length cs2 - 1)" using len by (simp add: last_conv_nth)
    ultimately have l2: "endIndex (cs2 ! (length cs2 - 1)) = en"
      using True by simp
    have l: "endIndex (cs ! (length cs - 1)) = en" using True cs by (simp add: last_conv_nth)
    have "getText t (assignSeparator s e (Span n st en cs m ss se)) = getText t (Span n st en cs2 m ss se)"
      using True by (simp add: cs2_def)
    also have "\<dots> = getText t (Span n st en cs m ss se) @ substring t s e"
      using len cs sf p l l2 c [folded cs2_def]
      by (simp add: prefix_def suffix_def separator_def)
    finally show ?thesis .
  next
    case False
    with "1.prems" show ?thesis
      by (auto simp: sepFree_Span prefix_def suffix_def separator_def)
  qed
qed


lemma fold_min_le_init: "fold min xs a \<le> (a::nat)"
proof (induction xs arbitrary: a)
  case Nil
  then show ?case by simp
next
  case (Cons y ys)
  have "fold min ys (min y a) \<le> min y a" by (rule Cons.IH)
  then show ?case by simp
qed

lemma fold_min_le: "(x::nat) \<in> set xs \<Longrightarrow> fold min xs a \<le> x"
proof (induction xs arbitrary: a)
  case Nil
  then show ?case by simp
next
  case (Cons y ys)
  show ?case
  proof (cases "x = y")
    case True
    have "fold min ys (min y a) \<le> min y a" by (rule fold_min_le_init)
    with True show ?thesis by simp
  next
    case False
    with Cons show ?thesis by simp
  qed
qed

lemma spanStart_le: "spanStart n \<le> getStart n"
  by (cases n) (simp add: fold_min_le_init)

lemma round_trip_aux:
  "wellFormed n \<Longrightarrow> Span_new n = Inr sp \<Longrightarrow>
     getText t sp = substring t (startIndex sp) (endIndex sp) \<and> sepFree sp \<and>
     startIndex sp \<le> endIndex sp"
  "list_all wellFormed ns \<Longrightarrow> inSourceOrder ns \<Longrightarrow>
   (cs \<noteq> [] \<Longrightarrow> ns \<noteq> [] \<Longrightarrow> endIndex (last cs) \<le> spanStart (hd ns)) \<Longrightarrow>
   coversText t cs \<Longrightarrow> Span_loop en st cs ns = Inr (st', cs') \<Longrightarrow> coversText t cs'"
proof (induction n and en st cs ns arbitrary: sp and st' cs' rule: Span_new_Span_loop.induct)
  case (1 i k st en ns)
  from "1.prems"(2) obtain st' cs where loop: "Span_loop en st [] ns = Inr (st', cs)"
    and sp: "sp = Span (Node i k st en ns) st' en cs SpanModification_reset 0 0"
    by (auto split: sum.splits prod.splits)
  from "1.prems"(1) have wf: "st \<le> en" "list_all wellFormed ns" "inSourceOrder ns" by simp_all
  have cov: "coversText t cs"
    using "1.IH" [OF wf(2,3) _ _ loop] by (simp add: coversText_def)
  note shape = Span_shape(2) [OF loop]
  have st': "st' \<le> st" using shape by (simp add: fold_min_le_init)
  show ?case
  proof (cases "cs = []")
    case True
    with shape have "ns = []" by auto
    with shape True sp wf show ?thesis
      by (simp add: prefix_def suffix_def separator_def sepFree_Span)
  next
    case False
    with shape have ns: "ns \<noteq> []" by auto
    from cov False have c: "concat (map (getText t) cs) = substring t (startIndex (hd cs)) (endIndex (last cs))"
      "sepFree (last cs)" "startIndex (hd cs) \<le> endIndex (last cs)"
      by (simp_all add: coversText_def)
    have "hd (map startIndex cs) = hd (map spanStart ns)" using shape by simp
    then have h: "startIndex (hd cs) = spanStart (hd ns)" using False ns by (simp add: hd_map)
    have "spanStart (hd ns) \<in> set (map spanStart ns)" using ns by simp
    then have lo: "st' \<le> startIndex (hd cs)" using shape h by (simp only: fold_min_le)
    have "last (map endIndex cs) = last (map node_end ns)" using shape by simp
    then have "endIndex (last cs) = node_end (last ns)" using False ns by (simp add: last_map)
    moreover have "node_end (last ns) \<le> en" using shape ns by (simp add: list_all_iff)
    ultimately have hi: "endIndex (last cs) \<le> en" by simp
    have "getText t sp = substring t st' (startIndex (hd cs)) @
        substring t (startIndex (hd cs)) (endIndex (last cs)) @ substring t (endIndex (last cs)) en"
      using sp False c(1) by (simp add: prefix_def suffix_def separator_def hd_conv_nth last_conv_nth)
    also have "\<dots> = substring t st' en"
      using lo c(3) hi by (simp add: substring_append)
    finally show ?thesis using sp False c(2) lo c(3) hi by (simp add: sepFree_Span)
  qed
next
  case (2 en st cs)
  then show ?case by simp
next
  case (3 en st cs childNode ns)
  from "3.prems"(5) obtain childSpan where c: "Span_new childNode = Inr childSpan"
    by (auto split: sum.splits)
  let ?st1 = "if startIndex childSpan < st then startIndex childSpan else st"
  let ?cs1 = "if cs \<noteq> [] \<and> endIndex (last cs) < startIndex childSpan
               then butlast cs @ [assignSeparator (endIndex (last cs)) (startIndex childSpan) (last cs)]
               else cs"
  from "3.prems"(5) c have le: "\<not> en < endIndex childSpan" and
    rest: "Span_loop en ?st1 (?cs1 @ [childSpan]) ns = Inr (st', cs')"
    by (auto simp: Let_def split: if_splits)
  from "3.prems"(1) have wfc: "wellFormed childNode" and wfns: "list_all wellFormed ns" by simp_all
  from "3.prems"(2) have ord: "inSourceOrder ns" by (cases ns) simp_all
  note child = "3.IH"(1) [OF wfc c]
  note cshape = Span_shape(1) [OF c]
  have next_ok: "ns \<noteq> [] \<Longrightarrow> endIndex (last (?cs1 @ [childSpan])) \<le> spanStart (hd ns)"
    using "3.prems"(2) cshape by (cases ns) simp_all
  have cov1: "coversText t (?cs1 @ [childSpan])"
  proof (cases "cs = []")
    case True
    with child show ?thesis by (simp add: coversText_def)
  next
    case False
    with "3.prems"(4) have cv: "concat (map (getText t) cs) = substring t (startIndex (hd cs)) (endIndex (last cs))"
      "sepFree (last cs)" "startIndex (hd cs) \<le> endIndex (last cs)"
      by (simp_all add: coversText_def)
    from "3.prems"(3) False cshape have gap: "endIndex (last cs) \<le> startIndex childSpan" by simp
    have hd1: "startIndex (hd (?cs1 @ [childSpan])) = startIndex (hd cs)"
      using False by (cases cs) (auto simp: hd_append)
    have ctext: "concat (map (getText t) ?cs1)
        = substring t (startIndex (hd cs)) (startIndex childSpan)"
    proof (cases "endIndex (last cs) < startIndex childSpan")
      case True
      have "concat (map (getText t) (butlast cs @ [assignSeparator (endIndex (last cs)) (startIndex childSpan) (last cs)]))
          = concat (map (getText t) (butlast cs @ [last cs])) @ substring t (endIndex (last cs)) (startIndex childSpan)"
        using cv(2) by (simp add: getText_assignSeparator)
      also have "\<dots> = substring t (startIndex (hd cs)) (endIndex (last cs)) @ substring t (endIndex (last cs)) (startIndex childSpan)"
        using False cv(1) by simp
      also have "\<dots> = substring t (startIndex (hd cs)) (startIndex childSpan)"
        using cv(3) gap by (simp add: substring_append)
      finally show ?thesis using True False by simp
    next
      case F: False
      with gap have "endIndex (last cs) = startIndex childSpan" by simp
      with F cv(1) show ?thesis by simp
    qed
    have "concat (map (getText t) (?cs1 @ [childSpan]))
        = substring t (startIndex (hd cs)) (startIndex childSpan) @ substring t (startIndex childSpan) (endIndex childSpan)"
      using ctext child by simp
    also have "\<dots> = substring t (startIndex (hd cs)) (endIndex childSpan)"
      using cv(3) gap child by (simp add: substring_append)
    finally show ?thesis using hd1 child cv(3) gap
      by (simp add: coversText_def)
  qed
  show ?case
    by (rule "3.IH"(2) [OF c refl _ refl wfns ord _ cov1 rest]) (use le next_ok in auto)
qed


lemma Span_succeeds_iff:
  "(\<exists>sp. Span_new n = Inr sp) \<longleftrightarrow> endsWithinParents n"
  "(\<exists>r. Span_loop en st cs ns = Inr r) \<longleftrightarrow> list_all (\<lambda>c. node_end c \<le> en \<and> endsWithinParents c) ns"
proof (induction n and en st cs ns rule: Span_new_Span_loop.induct)
  case (1 i k st en ns)
  then show ?case by (auto split: sum.splits)
next
  case (2 en st cs)
  then show ?case by simp
next
  case (3 en st cs childNode ns)
  show ?case
  proof (cases "Span_new childNode")
    case (Inl e)
    with "3.IH"(1) show ?thesis by auto
  next
    case (Inr childSpan)
    from Span_shape(1) [OF Inr] have e: "endIndex childSpan = node_end childNode" by simp
    from Inr "3.IH"(1) have c: "endsWithinParents childNode" by auto
    show ?thesis
    proof (cases "en < node_end childNode")
      case True
      with Inr e show ?thesis by simp
    next
      case False
      with Inr e c "3.IH"(2) [OF Inr refl _ refl] show ?thesis
        by (simp add: Let_def not_less)
    qed
  qed
qed

lemma Span_loop_child_too_long:
  "\<exists>c\<in>set ns. en < node_end c \<Longrightarrow> Span_loop en st cs ns = Inl UnexpectedAstCase"
proof -
  assume a: "\<exists>c\<in>set ns. en < node_end c"
  have "\<not> list_all (\<lambda>c. node_end c \<le> en \<and> endsWithinParents c) ns"
    using a by (fastforce simp: list_all_iff not_le)
  then have "\<not> (\<exists>r. Span_loop en st cs ns = Inr r)"
    using Span_succeeds_iff(2) [of en st cs ns] by blast
  then obtain e where "Span_loop en st cs ns = Inl e" by (cases "Span_loop en st cs ns") auto
  then show ?thesis using Span_errors(2) by metis
qed

text \<open>
  Claim C9. The constructor throws when a child of the node ends after the node; more
  exactly it throws, and always this error, just when somewhere in the tree a node ends
  after its parent. Where a child starts plays no part: when no node ends after its parent
  the constructor succeeds, the span keeps the node's end, and its start index is the
  least of the node's own start and its children's start indices, so that every child
  lies within the span.
\<close>

theorem span_bound_check:
  "((\<exists>c\<in>set (getChildren n). node_end n < node_end c) \<longrightarrow> Span_new n = Inl UnexpectedAstCase) \<and>
   (Span_new n = Inl UnexpectedAstCase \<longleftrightarrow> \<not> endsWithinParents n) \<and>
   (endsWithinParents n \<longrightarrow>
      (\<exists>sp. Span_new n = Inr sp \<and> map node (children sp) = getChildren n \<and>
         endIndex sp = node_end n \<and>
         startIndex sp = fold min (map startIndex (children sp)) (getStart n) \<and>
         list_all (\<lambda>c. startIndex sp \<le> startIndex c \<and> endIndex c \<le> endIndex sp) (children sp)))"
proof (intro conjI impI)
  assume "\<exists>c\<in>set (getChildren n). node_end n < node_end c"
  then show "Span_new n = Inl UnexpectedAstCase"
    by (cases n) (simp add: Span_loop_child_too_long)
next
  show "Span_new n = Inl UnexpectedAstCase \<longleftrightarrow> \<not> endsWithinParents n"
  proof
    assume "Span_new n = Inl UnexpectedAstCase"
    then have "\<not> (\<exists>sp. Span_new n = Inr sp)" by simp
    then show "\<not> endsWithinParents n" by (simp add: Span_succeeds_iff)
  next
    assume "\<not> endsWithinParents n"
    then have "\<not> (\<exists>sp. Span_new n = Inr sp)" by (simp add: Span_succeeds_iff)
    then obtain e where "Span_new n = Inl e" by (cases "Span_new n") auto
    then show "Span_new n = Inl UnexpectedAstCase" using Span_errors(1) by metis
  qed
next
  assume "endsWithinParents n"
  then obtain sp where sp: "Span_new n = Inr sp" using Span_succeeds_iff(1) by blast
  note shape = Span_shape(1) [OF sp]
  have st: "startIndex sp = fold min (map startIndex (children sp)) (getStart n)"
    using shape by (cases n) simp
  have lo: "\<forall>c\<in>set (children sp). startIndex sp \<le> startIndex c"
    using st by (simp add: fold_min_le)
  have img: "endIndex ` set (children sp) = node_end ` set (getChildren n)"
    using shape by (metis set_map)
  have hi: "\<forall>c\<in>set (children sp). endIndex c \<le> endIndex sp"
  proof
    fix c assume "c \<in> set (children sp)"
    then have "endIndex c \<in> node_end ` set (getChildren n)" using img by blast
    then obtain d where "d \<in> set (getChildren n)" "endIndex c = node_end d" by blast
    then show "endIndex c \<le> endIndex sp" using shape by (simp add: list_all_iff)
  qed
  show "\<exists>sp. Span_new n = Inr sp \<and> map node (children sp) = getChildren n \<and>
         endIndex sp = node_end n \<and>
         startIndex sp = fold min (map startIndex (children sp)) (getStart n) \<and>
         list_all (\<lambda>c. startIndex sp \<le> startIndex c \<and> endIndex c \<le> endIndex sp) (children sp)"
    using sp shape st lo hi by (simp add: list_all_iff)
qed

theorem span_bound_check_witness:
  "Span_new (Node 0 (OtherKind 1) 0 5 [Node 1 Identifier 0 7 []]) = Inl UnexpectedAstCase \<and>
   endsWithinParents (Node 0 (OtherKind 1) 5 9 [Node 1 JSDocComment 0 3 [], Node 2 Identifier 5 9 []]) \<and>
   (\<exists>sp. Span_new (Node 0 (OtherKind 1) 5 9 [Node 1 JSDocComment 0 3 [], Node 2 Identifier 5 9 []]) = Inr sp \<and>
      startIndex sp = 0 \<and> endIndex sp = 9 \<and> map startIndex (children sp) = [0, 5])"
  using span_bound_check [of "Node 0 (OtherKind 1) 0 5 [Node 1 Identifier 0 7 []]"]
    span_bound_check [of "Node 0 (OtherKind 1) 5 9 [Node 1 JSDocComment 0 3 [], Node 2 Identifier 5 9 []]"]
  by simp

text \<open>
  Claim C1. For a well-formed syntax tree on which the constructor succeeds, \<open>getText\<close>
  of the root span is the source text from the span's start index to its end index,
  character for character; the end index is the node's \<open>end\<close> and the start index the
  least start in the tree (the node's own \<open>getStart()\<close> unless a descendant, such as a
  leading JSDoc comment, starts before it). For every span \<open>getText\<close> is prefix,
  the children's \<open>getText\<close> in order, suffix, separator.
\<close>

theorem span_round_trip:
  "wellFormed n \<and> Span_new n = Inr sp \<longrightarrow>
     getText t sp = substring t (startIndex sp) (endIndex sp) \<and>
     startIndex sp = spanStart n \<and> endIndex sp = node_end n \<and>
     getText t sp = ((prefix t sp @ concat (map (getText t) (children sp))) @ suffix t sp) @ separator t sp"
proof (intro impI, elim conjE)
  assume wf: "wellFormed n" and sp: "Span_new n = Inr sp"
  have "getText t sp = ((prefix t sp @ concat (map (getText t) (children sp))) @ suffix t sp) @ separator t sp"
    by (cases sp) simp
  with round_trip_aux(1) [OF wf sp] Span_shape(1) [OF sp]
  show "getText t sp = substring t (startIndex sp) (endIndex sp) \<and>
     startIndex sp = spanStart n \<and> endIndex sp = node_end n \<and>
     getText t sp = ((prefix t sp @ concat (map (getText t) (children sp))) @ suffix t sp) @ separator t sp"
    by simp
qed


theorem span_round_trip_witness:
  "wellFormed (Node 0 (OtherKind 0) 6 13 [Node 1 JSDocComment 0 5 [], Node 2 SyntaxList 6 11 [Node 3 (OtherKind 1) 6 9 [], Node 4 Identifier 10 11 []], Node 5 (OtherKind 2) 12 13 []]) \<and>
   Span_new (Node 0 (OtherKind 0) 6 13 [Node 1 JSDocComment 0 5 [], Node 2 SyntaxList 6 11 [Node 3 (OtherKind 1) 6 9 [], Node 4 Identifier 10 11 []], Node 5 (OtherKind 2) 12 13 []])
     = Inr (projr (Span_new (Node 0 (OtherKind 0) 6 13 [Node 1 JSDocComment 0 5 [], Node 2 SyntaxList 6 11 [Node 3 (OtherKind 1) 6 9 [], Node 4 Identifier 10 11 []], Node 5 (OtherKind 2) 12 13 []]))) \<and>
   getText ''/*d*/ var x ;'' (projr (Span_new (Node 0 (OtherKind 0) 6 13 [Node 1 JSDocComment 0 5 [], Node 2 SyntaxList 6 11 [Node 3 (OtherKind 1) 6 9 [], Node 4 Identifier 10 11 []], Node 5 (OtherKind 2) 12 13 []]))) = ''/*d*/ var x ;'' \<and>
   separator ''/*d*/ var x ;'' (children (projr (Span_new (Node 0 (OtherKind 0) 6 13 [Node 1 JSDocComment 0 5 [], Node 2 SyntaxList 6 11 [Node 3 (OtherKind 1) 6 9 [], Node 4 Identifier 10 11 []], Node 5 (OtherKind 2) 12 13 []]))) ! 0) = '' ''"
  using span_round_trip [of "Node 0 (OtherKind 0) 6 13 [Node 1 JSDocComment 0 5 [], Node 2 SyntaxList 6 11 [Node 3 (OtherKind 1) 6 9 [], Node 4 Identifier 10 11 []], Node 5 (OtherKind 2) 12 13 []]"
      "projr (Span_new (Node 0 (OtherKind 0) 6 13 [Node 1 JSDocComment 0 5 [], Node 2 SyntaxList 6 11 [Node 3 (OtherKind 1) 6 9 [], Node 4 Identifier 10 11 []], Node 5 (OtherKind 2) 12 13 []]))" "''/*d*/ var x ;''"]
  by (simp add: substring_def separator_def)

end
